theory Spec2Isabelle
  imports Main "HOL-Library.Char_ord" "HOL-Library.Sublist"
begin

section \<open>Python strings\<close>

text \<open>
  The program is Python; its strings are sequences of code points. A \<^typ>\<open>char\<close> of
  this development stands for one code point below 256 (the Latin-1 range), so a
  \<^typ>\<open>string\<close> is a Python \<^verbatim>\<open>str\<close> over that range. The character classes below are
  Python's on this range.
\<close>

definition NL :: char where
  "NL = CHR 0x0A"

definition in_range :: "char \<Rightarrow> char \<Rightarrow> char \<Rightarrow> bool" where
  "in_range lo hi c \<longleftrightarrow> lo \<le> c \<and> c \<le> hi"

text \<open>
  \<^verbatim>\<open>str.isspace\<close> of one character, which is also what \<^verbatim>\<open>\s\<close> matches in a
  \<^verbatim>\<open>str\<close> pattern and what \<^verbatim>\<open>str.strip()\<close> removes: TAB, LF, VT, FF, CR, the four
  separators 0x1C to 0x1F, the space, NEL (0x85) and the no-break space (0xA0).
\<close>

definition py_isspace :: "char \<Rightarrow> bool" where
  "py_isspace c \<longleftrightarrow>
     in_range (CHR 0x09) (CHR 0x0D) c \<or> in_range (CHR 0x1C) (CHR 0x20) c
     \<or> c = CHR 0x85 \<or> c = CHR 0xA0"

text \<open>\<^verbatim>\<open>\d\<close> in a \<^verbatim>\<open>str\<close> pattern: the decimal digits, below 256 only 0 to 9.\<close>

definition re_digit :: "char \<Rightarrow> bool" where
  "re_digit c \<longleftrightarrow> in_range (CHR ''0'') (CHR ''9'') c"

text \<open>\<^verbatim>\<open>s.lstrip()\<close>, \<^verbatim>\<open>s.rstrip()\<close> and \<^verbatim>\<open>s.strip()\<close> without argument.\<close>

definition py_lstrip :: "string \<Rightarrow> string" where
  "py_lstrip s = dropWhile py_isspace s"

definition py_rstrip :: "string \<Rightarrow> string" where
  "py_rstrip s = rev (dropWhile py_isspace (rev s))"

definition py_strip :: "string \<Rightarrow> string" where
  "py_strip s = py_rstrip (py_lstrip s)"

text \<open>\<^verbatim>\<open>sep.join(xs)\<close>.\<close>

fun py_join :: "string \<Rightarrow> string list \<Rightarrow> string" where
  "py_join sep [] = []"
| "py_join sep [x] = x"
| "py_join sep (x # y # ys) = x @ sep @ py_join sep (y # ys)"

text \<open>
  \<^verbatim>\<open>match_lit p s\<close>: the literal \<open>p\<close> at the start of \<open>s\<close>; the rest of \<open>s\<close> when it
  is there.
\<close>

fun match_lit :: "string \<Rightarrow> string \<Rightarrow> string option" where
  "match_lit [] s = Some s"
| "match_lit (p # ps) [] = None"
| "match_lit (p # ps) (c # cs) = (if p = c then match_lit ps cs else None)"

text \<open>\<^verbatim>\<open>sub in s\<close> for strings.\<close>

fun py_contains :: "string \<Rightarrow> string \<Rightarrow> bool" where
  "py_contains sub [] = (sub = [])"
| "py_contains sub (c # cs) = (match_lit sub (c # cs) \<noteq> None \<or> py_contains sub cs)"

section \<open>Regular expressions\<close>

text \<open>
  The fragment of Python's \<^verbatim>\<open>re\<close> that the program's five patterns use: literals,
  character classes, greedy repetition of a class (\<^verbatim>\<open>*\<close>; \<^verbatim>\<open>+\<close> is a class followed
  by its \<^verbatim>\<open>*\<close>), sequence, ordered alternative, greedy option (\<^verbatim>\<open>?\<close>) and \<^verbatim>\<open>$\<close>.
  \<open>rmatch r s k\<close> is the backtracking matcher: it matches \<open>r\<close> at the start of \<open>s\<close>
  and hands the rest of the string to the continuation \<open>k\<close>; when \<open>k\<close> fails, the next
  choice is tried, in Python's order (the first alternative before the second, the
  longer repetition before the shorter, the option taken before it is skipped).
  Without the flag MULTILINE, \<^verbatim>\<open>$\<close> matches at the end of the string and before a
  newline that ends the string.
\<close>

datatype rx =
    Lit string
  | Cls "char \<Rightarrow> bool"
  | Star "char \<Rightarrow> bool"
  | Seq rx rx
  | Alt rx rx
  | Opt rx
  | Eol

fun rmatch :: "rx \<Rightarrow> string \<Rightarrow> (string \<Rightarrow> 'a option) \<Rightarrow> 'a option" where
  "rmatch (Lit p) s k = (case match_lit p s of None \<Rightarrow> None | Some t \<Rightarrow> k t)"
| "rmatch (Cls p) [] k = None"
| "rmatch (Cls p) (c # cs) k = (if p c then k cs else None)"
| "rmatch (Star p) [] k = k []"
| "rmatch (Star p) (c # cs) k =
     (if p c then (case rmatch (Star p) cs k of Some r \<Rightarrow> Some r | None \<Rightarrow> k (c # cs))
      else k (c # cs))"
| "rmatch (Seq a b) s k = rmatch a s (\<lambda>t. rmatch b t k)"
| "rmatch (Alt a b) s k = (case rmatch a s k of Some r \<Rightarrow> Some r | None \<Rightarrow> rmatch b s k)"
| "rmatch (Opt a) s k = (case rmatch a s k of Some r \<Rightarrow> Some r | None \<Rightarrow> k s)"
| "rmatch Eol s k = (if s = [] \<or> s = [NL] then k s else None)"

text \<open>
  \<^verbatim>\<open>re.match(r, s)\<close>: a match at the start of \<open>s\<close>, as the pair of the matched text
  and the rest.
\<close>

definition re_match :: "rx \<Rightarrow> string \<Rightarrow> (string \<times> string) option" where
  "re_match r s =
     (case rmatch r s Some of None \<Rightarrow> None
      | Some t \<Rightarrow> Some (take (length s - length t) s, t))"

text \<open>\<^verbatim>\<open>re.search(r, s)\<close>: the leftmost match, as the matched text.\<close>

fun re_search :: "rx \<Rightarrow> string \<Rightarrow> string option" where
  "re_search r [] = (case re_match r [] of None \<Rightarrow> None | Some (m, t) \<Rightarrow> Some m)"
| "re_search r (c # cs) =
     (case re_match r (c # cs) of None \<Rightarrow> re_search r cs | Some (m, t) \<Rightarrow> Some m)"

text \<open>
  \<^verbatim>\<open>re.sub(r, '', s)\<close> for a pattern that matches no empty string: every match,
  found from left to right, is removed.
\<close>

fun re_sub_empty :: "rx \<Rightarrow> string \<Rightarrow> string" where
  "re_sub_empty r [] = []"
| "re_sub_empty r (c # cs) =
     (case rmatch r (c # cs) Some of
        None \<Rightarrow> c # re_sub_empty r cs
      | Some t \<Rightarrow> (if length t \<le> length cs then re_sub_empty r t else c # re_sub_empty r cs))"

section \<open>\<^verbatim>\<open>clean_youtube_url\<close>\<close>

text \<open>The class \<^verbatim>\<open>[a-zA-Z0-9_-]\<close>.\<close>

definition id_char :: "char \<Rightarrow> bool" where
  "id_char c \<longleftrightarrow>
     in_range (CHR ''a'') (CHR ''z'') c \<or> in_range (CHR ''A'') (CHR ''Z'') c
     \<or> in_range (CHR ''0'') (CHR ''9'') c \<or> c = CHR ''_'' \<or> c = CHR ''-''"

text \<open>\<^verbatim>\<open>(https?://(?:www\.|m\.|music\.)?youtube\.com/watch\?v=[a-zA-Z0-9_-]+)\<close>\<close>

definition watch_pattern :: rx where
  "watch_pattern =
     Seq (Lit ''http'') (Seq (Opt (Lit ''s'')) (Seq (Lit ''://'')
       (Seq (Opt (Alt (Lit ''www.'') (Alt (Lit ''m.'') (Lit ''music.''))))
         (Seq (Lit ''youtube.com/watch?v='') (Seq (Cls id_char) (Star id_char))))))"

text \<open>\<^verbatim>\<open>(https?://youtu\.be/[a-zA-Z0-9_-]+)\<close>\<close>

definition short_pattern :: rx where
  "short_pattern =
     Seq (Lit ''http'') (Seq (Opt (Lit ''s'')) (Seq (Lit ''://youtu.be/'')
       (Seq (Cls id_char) (Star id_char))))"

text \<open>
  \<^verbatim>\<open>
  def clean_youtube_url(url):
      patterns = [watch_pattern, short_pattern]
      for pattern in patterns:
          match = re.match(pattern, url)
          if match:
              return match.group(1)
      return url
  \<close>
  Group 1 encloses the whole pattern, so it is the matched text.
\<close>

definition clean_youtube_url :: "string \<Rightarrow> string" where
  "clean_youtube_url url =
     (case re_match watch_pattern url of
        Some (m, t) \<Rightarrow> m
      | None \<Rightarrow>
          (case re_match short_pattern url of
             Some (m, t) \<Rightarrow> m
           | None \<Rightarrow> url))"

text \<open>
  What the function is meant to return, in words: a canonical watch URL is a scheme,
  one of the known hosts, the path \<^verbatim>\<open>youtube.com/watch?v=\<close> and a video identifier
  that is not empty; a canonical short URL is a scheme, \<^verbatim>\<open>youtu.be/\<close> and a video
  identifier that is not empty.
\<close>

definition url_scheme :: "string \<Rightarrow> bool" where
  "url_scheme x \<longleftrightarrow> x = ''http://'' \<or> x = ''https://''"

definition watch_host :: "string \<Rightarrow> bool" where
  "watch_host x \<longleftrightarrow> x = [] \<or> x = ''www.'' \<or> x = ''m.'' \<or> x = ''music.''"

definition video_id :: "string \<Rightarrow> bool" where
  "video_id v \<longleftrightarrow> v \<noteq> [] \<and> list_all id_char v"

definition watch_url :: "string \<Rightarrow> bool" where
  "watch_url r \<longleftrightarrow>
     (\<exists>x h v. r = x @ h @ ''youtube.com/watch?v='' @ v \<and> url_scheme x \<and> watch_host h \<and> video_id v)"

definition short_url :: "string \<Rightarrow> bool" where
  "short_url r \<longleftrightarrow> (\<exists>x v. r = x @ ''youtu.be/'' @ v \<and> url_scheme x \<and> video_id v)"

definition canonical_url :: "string \<Rightarrow> bool" where
  "canonical_url r \<longleftrightarrow> watch_url r \<or> short_url r"

subsection \<open>The matcher on the two patterns\<close>

lemma match_lit_iff: "match_lit p s = Some t \<longleftrightarrow> s = p @ t"
  by (induction p s rule: match_lit.induct) auto

lemma rmatch_Star_Some: "rmatch (Star p) s Some = Some (dropWhile p s)"
  by (induction s) auto

lemma rmatch_Plus_Some:
  "rmatch (Seq (Cls p) (Star p)) s Some =
     (case s of [] \<Rightarrow> None | c # cs \<Rightarrow> if p c then Some (dropWhile p s) else None)"
  by (cases s) (auto simp: rmatch_Star_Some)

text \<open>
  The pieces of the two patterns, from the right: the identifier \<^verbatim>\<open>[a-zA-Z0-9_-]+\<close>, the
  path and the identifier, and the part that starts at \<^verbatim>\<open>://\<close>. They only name what
  \<open>rmatch\<close> unfolds to on these patterns.
\<close>

definition id_plus :: "string \<Rightarrow> string option" where
  "id_plus s = rmatch (Seq (Cls id_char) (Star id_char)) s Some"

definition stops :: "string \<Rightarrow> bool" where
  "stops t \<longleftrightarrow> (case t of [] \<Rightarrow> True | c # cs \<Rightarrow> \<not> id_char c)"

lemma stops_dropWhile: "stops (dropWhile id_char s)"
  by (induction s) (auto simp: stops_def)

lemma plus_id_sound:
  assumes "rmatch (Seq (Cls id_char) (Star id_char)) s Some = Some t"
  shows "\<exists>v. s = v @ t \<and> video_id v \<and> stops t"
proof -
  from assms [unfolded rmatch_Plus_Some]
  obtain c cs where s: "s = c # cs" and c: "id_char c" and t: "t = dropWhile id_char s"
    by (auto split: list.splits if_splits)
  let ?v = "takeWhile id_char s"
  have "s = ?v @ t" by (simp add: t)
  moreover have "video_id ?v"
    using s c by (auto simp: video_id_def list_all_iff dest: set_takeWhileD)
  moreover have "stops t" by (simp add: t stops_dropWhile)
  ultimately show ?thesis by blast
qed

lemma plus_id_complete:
  "video_id v \<Longrightarrow> stops t \<Longrightarrow> rmatch (Seq (Cls id_char) (Star id_char)) (v @ t) Some = Some t"
  apply (simp only: rmatch_Plus_Some)
  apply (cases v; simp add: video_id_def)
  apply (auto simp: stops_def list_all_iff split: list.splits)
  done


definition after_host :: "string \<Rightarrow> string option" where
  "after_host s = (case match_lit ''youtube.com/watch?v='' s of None \<Rightarrow> None
     | Some u \<Rightarrow> rmatch (Seq (Cls id_char) (Star id_char)) u Some)"

definition host_part :: "string \<Rightarrow> string option" where
  "host_part s2 = (case match_lit ''://'' s2 of None \<Rightarrow> None | Some s3 \<Rightarrow>
     (case (case (case match_lit ''www.'' s3 of None \<Rightarrow> None | Some s4 \<Rightarrow> after_host s4) of
              Some r \<Rightarrow> Some r
            | None \<Rightarrow> (case (case match_lit ''m.'' s3 of None \<Rightarrow> None | Some s4 \<Rightarrow> after_host s4) of
                        Some r \<Rightarrow> Some r
                      | None \<Rightarrow> (case match_lit ''music.'' s3 of None \<Rightarrow> None | Some s4 \<Rightarrow> after_host s4))) of
        Some r \<Rightarrow> Some r
      | None \<Rightarrow> after_host s3))"

lemma watch_unfold:
  "rmatch watch_pattern s Some =
    (case match_lit ''http'' s of None \<Rightarrow> None | Some s1 \<Rightarrow>
       (case (case match_lit ''s'' s1 of None \<Rightarrow> None | Some s2 \<Rightarrow> host_part s2) of
          Some r \<Rightarrow> Some r | None \<Rightarrow> host_part s1))"
  unfolding watch_pattern_def host_part_def after_host_def
  by (simp only: rmatch.simps(1,6,7,8))

lemma after_host_sound:
  "after_host s = Some t \<Longrightarrow> \<exists>v. s = ''youtube.com/watch?v='' @ v @ t \<and> video_id v \<and> stops t"
  unfolding after_host_def
  by (auto simp only: match_lit_iff split: option.splits dest!: plus_id_sound)

lemma host_part_sound:
  assumes "host_part s = Some t"
  shows "\<exists>h v. s = ''://'' @ h @ ''youtube.com/watch?v='' @ v @ t \<and> watch_host h \<and> video_id v \<and> stops t"
proof -
  from assms obtain s3 where s: "s = ''://'' @ s3"
    and c: "(\<exists>s4. s3 = ''www.'' @ s4 \<and> after_host s4 = Some t)
          \<or> (\<exists>s4. s3 = ''m.'' @ s4 \<and> after_host s4 = Some t)
          \<or> (\<exists>s4. s3 = ''music.'' @ s4 \<and> after_host s4 = Some t)
          \<or> (\<exists>s4. s3 = [] @ s4 \<and> after_host s4 = Some t)"
    unfolding host_part_def
    by (simp only: match_lit_iff append_Nil split: option.splits; blast)
  from c obtain h s4 where h: "watch_host h" "s3 = h @ s4" "after_host s4 = Some t"
    unfolding watch_host_def by blast
  from after_host_sound [OF h(3)] obtain v
    where "s4 = ''youtube.com/watch?v='' @ v @ t" "video_id v" "stops t" by blast
  with s h(1,2) show ?thesis by blast
qed

lemma watch_sound:
  assumes "rmatch watch_pattern s Some = Some t"
  shows "\<exists>x h v. s = x @ h @ ''youtube.com/watch?v='' @ v @ t \<and> url_scheme x \<and> watch_host h \<and> video_id v \<and> stops t"
proof -
  from assms obtain s1 where s: "s = ''http'' @ s1"
    and c: "(\<exists>s2. s1 = ''s'' @ s2 \<and> host_part s2 = Some t) \<or> host_part s1 = Some t"
    unfolding watch_unfold
    by (simp only: match_lit_iff split: option.splits; blast)
  from c obtain x s2 where x: "x = ''s'' \<or> x = []" "s1 = x @ s2" "host_part s2 = Some t"
    by (metis append_Nil)
  from host_part_sound [OF x(3)] obtain h v
    where hv: "s2 = ''://'' @ h @ ''youtube.com/watch?v='' @ v @ t" "watch_host h" "video_id v" "stops t"
    by blast
  have "s = (''http'' @ x @ ''://'') @ h @ ''youtube.com/watch?v='' @ v @ t"
    by (simp only: s x(2) hv(1) append_assoc)
  moreover have "url_scheme (''http'' @ x @ ''://'')"
    using x(1) by (auto simp: url_scheme_def)
  ultimately show ?thesis using hv(2,3,4) by blast
qed

lemma after_host_complete:
  "video_id v \<Longrightarrow> stops t \<Longrightarrow> after_host (''youtube.com/watch?v='' @ v @ t) = Some t"
  unfolding after_host_def by (simp add: plus_id_complete del: rmatch.simps)

lemma host_part_complete:
  assumes "watch_host h" "video_id v" "stops t"
  shows "host_part (''://'' @ h @ ''youtube.com/watch?v='' @ v @ t) = Some t"
proof -
  have a: "after_host (''youtube.com/watch?v='' @ v @ t) = Some t"
    using assms by (simp only: after_host_complete)
  have b: "after_host (c # ''.youtube.com/watch?v='' @ v @ t) = None" for c
    unfolding after_host_def by simp
  show ?thesis
    using assms(1) a unfolding host_part_def watch_host_def
    by (auto simp del: rmatch.simps)
qed

lemma watch_complete:
  assumes "url_scheme x" "watch_host h" "video_id v" "stops t"
  shows "rmatch watch_pattern (x @ h @ ''youtube.com/watch?v='' @ v @ t) Some = Some t"
proof -
  have a: "host_part (''://'' @ h @ ''youtube.com/watch?v='' @ v @ t) = Some t"
    using assms by (simp only: host_part_complete)
  have b: "host_part (''s://'' @ u) = None" for u
    unfolding host_part_def by simp
  show ?thesis
    using assms(1) a b unfolding watch_unfold url_scheme_def
    by (auto simp del: rmatch.simps)
qed

definition short_part :: "string \<Rightarrow> string option" where
  "short_part s2 = (case match_lit ''://youtu.be/'' s2 of None \<Rightarrow> None | Some u \<Rightarrow> id_plus u)"

lemma short_unfold:
  "rmatch short_pattern s Some =
    (case match_lit ''http'' s of None \<Rightarrow> None | Some s1 \<Rightarrow>
       (case (case match_lit ''s'' s1 of None \<Rightarrow> None | Some s2 \<Rightarrow> short_part s2) of
          Some r \<Rightarrow> Some r | None \<Rightarrow> short_part s1))"
  unfolding short_pattern_def short_part_def id_plus_def
  by (simp only: rmatch.simps(1,6,7,8))

lemma short_complete:
  assumes "url_scheme x" "video_id v" "stops t"
  shows "rmatch short_pattern (x @ ''youtu.be/'' @ v @ t) Some = Some t"
proof -
  have a: "id_plus (v @ t) = Some t"
    unfolding id_plus_def using assms by (simp only: plus_id_complete)
  have b: "short_part (''://youtu.be/'' @ v @ t) = Some t"
    unfolding short_part_def using a by simp
  have c: "short_part (''s://youtu.be/'' @ v @ t) = None"
    unfolding short_part_def by simp
  show ?thesis
    using assms(1) b c unfolding short_unfold url_scheme_def
    by (auto simp del: rmatch.simps)
qed

lemma short_sound:
  assumes "rmatch short_pattern s Some = Some t"
  shows "\<exists>x v. s = x @ ''youtu.be/'' @ v @ t \<and> url_scheme x \<and> video_id v \<and> stops t"
proof -
  from assms obtain s1 where s: "s = ''http'' @ s1"
    and c: "(\<exists>s2. s1 = ''s'' @ s2 \<and> short_part s2 = Some t) \<or> short_part s1 = Some t"
    unfolding short_unfold
    by (simp only: match_lit_iff split: option.splits; blast)
  from c obtain x s2 where x: "x = ''s'' \<or> x = []" "s1 = x @ s2" "short_part s2 = Some t"
    by (metis append_Nil)
  from x(3) obtain u where u: "s2 = ''://youtu.be/'' @ u"
     and p: "rmatch (Seq (Cls id_char) (Star id_char)) u Some = Some t"
    unfolding short_part_def id_plus_def
    by (simp only: match_lit_iff split: option.splits; blast)
  from plus_id_sound [OF p] obtain v where v: "u = v @ t" "video_id v" "stops t" by blast
  have "s = (''http'' @ x @ ''://'') @ ''youtu.be/'' @ v @ t"
    by (simp add: s x(2) u v(1))
  moreover have "url_scheme (''http'' @ x @ ''://'')"
    using x(1) by (auto simp: url_scheme_def)
  ultimately show ?thesis using v(2,3) by blast
qed

lemma video_id_extend: "video_id v \<Longrightarrow> video_id (v @ takeWhile id_char t)"
  by (auto simp: video_id_def list_all_iff dest: set_takeWhileD)

lemma re_match_append: "rmatch r (m @ t) Some = Some t \<Longrightarrow> re_match r (m @ t) = Some (m, t)"
  by (simp add: re_match_def)

lemma clean_watch:
  assumes "watch_url r"
  shows "clean_youtube_url (r @ t) = r @ takeWhile id_char t \<and> watch_url (r @ takeWhile id_char t)"
proof -
  from assms obtain x h v where r: "r = x @ h @ ''youtube.com/watch?v='' @ v"
    and xhv: "url_scheme x" "watch_host h" "video_id v"
    unfolding watch_url_def by blast
  let ?v = "v @ takeWhile id_char t" and ?t = "dropWhile id_char t"
  have v: "video_id ?v" using xhv(3) by (rule video_id_extend)
  have "rmatch watch_pattern (x @ h @ ''youtube.com/watch?v='' @ ?v @ ?t) Some = Some ?t"
    using xhv(1,2) v stops_dropWhile by (rule watch_complete)
  then have "rmatch watch_pattern ((r @ takeWhile id_char t) @ ?t) Some = Some ?t"
    by (simp only: r append_assoc)
  then have "re_match watch_pattern ((r @ takeWhile id_char t) @ ?t) = Some (r @ takeWhile id_char t, ?t)"
    by (rule re_match_append)
  then have "re_match watch_pattern (r @ t) = Some (r @ takeWhile id_char t, ?t)"
    by (simp only: append_assoc takeWhile_dropWhile_id)
  then have "clean_youtube_url (r @ t) = r @ takeWhile id_char t"
    by (simp add: clean_youtube_url_def)
  moreover have "watch_url (r @ takeWhile id_char t)"
  proof -
    have "r @ takeWhile id_char t = x @ h @ ''youtube.com/watch?v='' @ ?v"
      by (simp only: r append_assoc)
    with xhv(1,2) v show ?thesis unfolding watch_url_def by blast
  qed
  ultimately show ?thesis by simp
qed

lemma watch_not_short:
  assumes "rmatch watch_pattern s Some = Some t" and "short_url r" and "s = r @ u"
  shows False
proof -
  from watch_sound [OF assms(1)] obtain x h v
    where 1: "s = x @ h @ ''youtube.com/watch?v='' @ v @ t" "url_scheme x" "watch_host h"
    by blast
  from assms(2) obtain x' v' where 2: "r = x' @ ''youtu.be/'' @ v'" "url_scheme x'"
    unfolding short_url_def by blast
  from 1 2 assms(3) show False
    unfolding url_scheme_def watch_host_def by auto
qed

lemma clean_short:
  assumes "short_url r"
  shows "clean_youtube_url (r @ t) = r @ takeWhile id_char t \<and> short_url (r @ takeWhile id_char t)"
proof -
  from assms obtain x v where r: "r = x @ ''youtu.be/'' @ v"
    and xv: "url_scheme x" "video_id v"
    unfolding short_url_def by blast
  let ?v = "v @ takeWhile id_char t" and ?t = "dropWhile id_char t"
  have v: "video_id ?v" using xv(2) by (rule video_id_extend)
  have w: "re_match watch_pattern (r @ t) = None"
  proof (cases "rmatch watch_pattern (r @ t) Some")
    case None
    then show ?thesis by (simp add: re_match_def)
  next
    case (Some a)
    from watch_not_short [OF Some assms refl] show ?thesis ..
  qed
  have "rmatch short_pattern (x @ ''youtu.be/'' @ ?v @ ?t) Some = Some ?t"
    using xv(1) v stops_dropWhile by (rule short_complete)
  then have "rmatch short_pattern ((r @ takeWhile id_char t) @ ?t) Some = Some ?t"
    by (simp only: r append_assoc)
  then have "re_match short_pattern ((r @ takeWhile id_char t) @ ?t) = Some (r @ takeWhile id_char t, ?t)"
    by (rule re_match_append)
  then have "re_match short_pattern (r @ t) = Some (r @ takeWhile id_char t, ?t)"
    by (simp only: append_assoc takeWhile_dropWhile_id)
  with w have "clean_youtube_url (r @ t) = r @ takeWhile id_char t"
    by (simp add: clean_youtube_url_def)
  moreover have "short_url (r @ takeWhile id_char t)"
  proof -
    have "r @ takeWhile id_char t = x @ ''youtu.be/'' @ ?v"
      by (simp only: r append_assoc)
    with xv(1) v show ?thesis unfolding short_url_def by blast
  qed
  ultimately show ?thesis by simp
qed

lemma clean_canonical:
  assumes "canonical_url r"
  shows "clean_youtube_url (r @ t) = r @ takeWhile id_char t \<and> canonical_url (r @ takeWhile id_char t)"
  using assms clean_watch [of r t] clean_short [of r t] unfolding canonical_url_def by blast

lemma clean_none:
  assumes "\<forall>r. canonical_url r \<longrightarrow> \<not> prefix r url"
  shows "clean_youtube_url url = url"
proof -
  have "rmatch watch_pattern url Some = None"
  proof (cases "rmatch watch_pattern url Some")
    case (Some t)
    from watch_sound [OF Some] obtain x h v
      where u: "url = x @ h @ ''youtube.com/watch?v='' @ v @ t"
        and w: "url_scheme x" "watch_host h" "video_id v"
      by blast
    from w have "canonical_url (x @ h @ ''youtube.com/watch?v='' @ v)"
      unfolding canonical_url_def watch_url_def by blast
    moreover have "prefix (x @ h @ ''youtube.com/watch?v='' @ v) url"
      unfolding u by (rule prefixI) (simp only: append_assoc)
    ultimately show ?thesis using assms by blast
  qed simp
  moreover have "rmatch short_pattern url Some = None"
  proof (cases "rmatch short_pattern url Some")
    case (Some t)
    from short_sound [OF Some] obtain x v
      where u: "url = x @ ''youtu.be/'' @ v @ t"
        and w: "url_scheme x" "video_id v"
      by blast
    from w have "canonical_url (x @ ''youtu.be/'' @ v)"
      unfolding canonical_url_def short_url_def by blast
    moreover have "prefix (x @ ''youtu.be/'' @ v) url"
      unfolding u by (rule prefixI) (simp only: append_assoc)
    ultimately show ?thesis using assms by blast
  qed simp
  ultimately show ?thesis by (simp add: clean_youtube_url_def re_match_def)
qed

text \<open>
  Claim C10. When some canonical watch URL or short URL is a prefix of the input,
  \<open>clean_youtube_url\<close> returns the longest such prefix (what follows the identifier is
  dropped); when none is, it returns the input unchanged. Hence it is idempotent.
\<close>

theorem clean_youtube_url_canonical_prefix:
  "((\<exists>r. canonical_url r \<and> prefix r url) \<longrightarrow>
      canonical_url (clean_youtube_url url) \<and> prefix (clean_youtube_url url) url
      \<and> (\<forall>r. canonical_url r \<and> prefix r url \<longrightarrow> prefix r (clean_youtube_url url)))
   \<and> ((\<forall>r. canonical_url r \<longrightarrow> \<not> prefix r url) \<longrightarrow> clean_youtube_url url = url)
   \<and> clean_youtube_url (clean_youtube_url url) = clean_youtube_url url"
proof (cases "\<exists>r. canonical_url r \<and> prefix r url")
  case True
  then obtain r0 t0 where r0: "canonical_url r0" "url = r0 @ t0"
    by (auto simp: prefix_def)
  have c: "clean_youtube_url url = r0 @ takeWhile id_char t0"
    and k: "canonical_url (clean_youtube_url url)"
    using clean_canonical [OF r0(1), of t0] r0(2) by simp_all
  have "url = (r0 @ takeWhile id_char t0) @ dropWhile id_char t0"
    by (simp add: r0(2))
  then have p: "prefix (clean_youtube_url url) url"
    unfolding c by (rule prefixI)
  have m: "prefix r (clean_youtube_url url)" if "canonical_url r" "prefix r url" for r
  proof -
    from that obtain t where "url = r @ t" by (auto simp: prefix_def)
    with clean_canonical [OF that(1), of t] show ?thesis by simp
  qed
  have "clean_youtube_url (clean_youtube_url url @ []) = clean_youtube_url url @ takeWhile id_char []"
    using clean_canonical [OF k, of "[]"] by blast
  then have "clean_youtube_url (clean_youtube_url url) = clean_youtube_url url" by simp
  with True k p m show ?thesis by blast
next
  case False
  then have "clean_youtube_url url = url" using clean_none by blast
  with False show ?thesis by auto
qed

theorem clean_youtube_url_canonical_prefix_witness:
  "(\<exists>r. canonical_url r \<and> prefix r ''https://youtu.be/abc123?t=5'')
   \<and> clean_youtube_url ''https://youtu.be/abc123?t=5'' = ''https://youtu.be/abc123''
   \<and> canonical_url (clean_youtube_url ''https://youtu.be/abc123?t=5'')
   \<and> \<not> (\<exists>r. canonical_url r \<and> prefix r ''ftp://youtu.be/abc123'')
   \<and> clean_youtube_url ''ftp://youtu.be/abc123'' = ''ftp://youtu.be/abc123''"
proof -
  have "short_url (''https://'' @ ''youtu.be/'' @ ''abc123'')"
    unfolding short_url_def
    by (rule exI [of _ "''https://''"], rule exI [of _ "''abc123''"])
      (simp add: url_scheme_def video_id_def id_char_def in_range_def)
  then have 1: "canonical_url ''https://youtu.be/abc123''"
    by (simp add: canonical_url_def)
  then have 2: "\<exists>r. canonical_url r \<and> prefix r ''https://youtu.be/abc123?t=5''"
    by (intro exI [of _ "''https://youtu.be/abc123''"]) (simp add: prefix_def)
  have 3: "clean_youtube_url ''https://youtu.be/abc123?t=5'' = ''https://youtu.be/abc123''"
    by (simp add: clean_youtube_url_def re_match_def watch_pattern_def short_pattern_def
        id_char_def in_range_def)
  have 4: "\<forall>r. canonical_url r \<longrightarrow> \<not> prefix r ''ftp://youtu.be/abc123''"
    by (auto simp: canonical_url_def watch_url_def short_url_def url_scheme_def prefix_def)
  from clean_youtube_url_canonical_prefix [of "''ftp://youtu.be/abc123''"] 4
  have 5: "clean_youtube_url ''ftp://youtu.be/abc123'' = ''ftp://youtu.be/abc123''"
    by blast
  from clean_youtube_url_canonical_prefix [of "''https://youtu.be/abc123?t=5''"] 2
  have "canonical_url (clean_youtube_url ''https://youtu.be/abc123?t=5'')" by blast
  with 1 2 3 4 5 show ?thesis by blast
qed

section \<open>Exceptions\<close>

text \<open>
  A Python exception is a value: its class and, where one is formatted into a message,
  its text. \<open>Other c m\<close> is an exception of a class the program does not name (a
  network error of the HTTP client, a decoding error, ...).
\<close>

datatype exn =
    DownloadCancelled
  | TypeError string
  | ValueError string
  | OverflowError string
  | KeyError string
  | RuntimeError string
  | CalledProcessError string
  | FileNotFoundError string
  | JSONDecodeError string
  | Other string string

text \<open>
  \<^verbatim>\<open>str(e)\<close>. The text of \<^verbatim>\<open>DownloadCancelled\<close> raised without argument is the one
  its class declares in the downloader library; \<^verbatim>\<open>str\<close> of a \<^verbatim>\<open>KeyError\<close> is the
  \<^verbatim>\<open>repr\<close> of the key, which the model stores.
\<close>

fun exn_str :: "exn \<Rightarrow> string" where
  "exn_str DownloadCancelled = ''The download was cancelled''"
| "exn_str (TypeError m) = m"
| "exn_str (ValueError m) = m"
| "exn_str (OverflowError m) = m"
| "exn_str (KeyError m) = m"
| "exn_str (RuntimeError m) = m"
| "exn_str (CalledProcessError m) = m"
| "exn_str (FileNotFoundError m) = m"
| "exn_str (JSONDecodeError m) = m"
| "exn_str (Other c m) = m"

section \<open>The subtitle translator\<close>

subsection \<open>\<^verbatim>\<open>translate_text_deepseek\<close>\<close>

text \<open>
  The translation service is outside the program: \<open>api api_key text\<close> is what one
  request does, either an exception (of the HTTP client, of \<^verbatim>\<open>raise_for_status\<close>, of
  decoding the answer) or the text of the first completion.
  \<^verbatim>\<open>
  def translate_text_deepseek(text, api_key):
      ...
      response = requests.post(url, headers=headers, json=data, timeout=60)
      response.raise_for_status()
      return response.json()["choices"][0]["message"]["content"].strip()
  \<close>
\<close>

type_synonym translation_api = "string \<Rightarrow> string \<Rightarrow> exn + string"

definition translate_text_deepseek :: "translation_api \<Rightarrow> string \<Rightarrow> string \<Rightarrow> exn + string" where
  "translate_text_deepseek api text api_key =
     (case api api_key text of Inl e \<Rightarrow> Inl e | Inr content \<Rightarrow> Inr (py_strip content))"

subsection \<open>\<^verbatim>\<open>translate_srt_file\<close>\<close>

text \<open>The pattern \<^verbatim>\<open>^\d+\s*$\<close> of an index line, used with \<^verbatim>\<open>re.match\<close>.\<close>

definition index_pattern :: rx where
  "index_pattern = Seq (Cls re_digit) (Seq (Star re_digit) (Seq (Star py_isspace) Eol))"

definition is_index_line :: "string \<Rightarrow> bool" where
  "is_index_line line \<longleftrightarrow> re_match index_pattern line \<noteq> None"

definition is_timing_line :: "string \<Rightarrow> bool" where
  "is_timing_line line \<longleftrightarrow> py_contains ''-->'' line"

text \<open>
  The state of the loop: the two lists of the source, and what the function does to
  the outside, in order: the messages it emits on \<^verbatim>\<open>log_signal\<close> and the texts it sends
  to \<^verbatim>\<open>translate_text_deepseek\<close>.
\<close>

record srt_state =
  translated_lines :: "string list"
  text_buffer :: "string list"
  srt_log :: "string list"
  api_calls :: "string list"

definition srt_init :: srt_state where
  "srt_init = \<lparr>translated_lines = [], text_buffer = [], srt_log = [], api_calls = []\<rparr>"

text \<open>
  The body that the source has twice, under \<^verbatim>\<open>if text_buffer:\<close>, in the loop and after it:
  \<^verbatim>\<open>
  original_text = ' '.join(text_buffer).strip()
  log_signal.emit(f"[INFO] Translating: {original_text}")
  try:
      translated_text = translate_text_deepseek(original_text, api_key)
      translated_lines.append(translated_text + '\n')
  except Exception as e:
      log_signal.emit(f"[ERROR] Translation failed for '{original_text}': {e}")
      translated_lines.extend([l + '\n' for l in text_buffer])
  \<close>
\<close>

definition translate_buffer :: "translation_api \<Rightarrow> string \<Rightarrow> srt_state \<Rightarrow> srt_state" where
  "translate_buffer api api_key st =
     (let original_text = py_strip (py_join '' '' (text_buffer st));
          st1 = st\<lparr>srt_log := srt_log st @ [''[INFO] Translating: '' @ original_text],
                    api_calls := api_calls st @ [original_text]\<rparr>
      in case translate_text_deepseek api original_text api_key of
           Inr translated_text \<Rightarrow>
             st1\<lparr>translated_lines := translated_lines st1 @ [translated_text @ [NL]]\<rparr>
         | Inl e \<Rightarrow>
             st1\<lparr>srt_log := srt_log st1 @
                      [''[ERROR] Translation failed for '' @ [CHR 0x27] @ original_text
                        @ [CHR 0x27] @ '': '' @ exn_str e],
                  translated_lines := translated_lines st1 @ map (\<lambda>l. l @ [NL]) (text_buffer st1)\<rparr>)"

text \<open>
  One turn of \<^verbatim>\<open>for i, line in enumerate(lines)\<close>:
  \<^verbatim>\<open>
  if re.match(r'^\d+\s*$', line):
      translated_lines.append(line)
  elif '-->' in line:
      translated_lines.append(line)
  elif not line.strip():
      if text_buffer:
          ...
          text_buffer = []
      translated_lines.append('\n')
  else:
      text_buffer.append(line.strip())
  \<close>
\<close>

definition srt_step :: "translation_api \<Rightarrow> string \<Rightarrow> srt_state \<Rightarrow> string \<Rightarrow> srt_state" where
  "srt_step api api_key st line =
     (if is_index_line line then st\<lparr>translated_lines := translated_lines st @ [line]\<rparr>
      else if is_timing_line line then st\<lparr>translated_lines := translated_lines st @ [line]\<rparr>
      else if py_strip line = [] then
        (let st1 = (if text_buffer st \<noteq> []
                    then (translate_buffer api api_key st)\<lparr>text_buffer := []\<rparr> else st)
         in st1\<lparr>translated_lines := translated_lines st1 @ [[NL]]\<rparr>)
      else st\<lparr>text_buffer := text_buffer st @ [py_strip line]\<rparr>)"

fun srt_loop :: "translation_api \<Rightarrow> string \<Rightarrow> srt_state \<Rightarrow> string list \<Rightarrow> srt_state" where
  "srt_loop api api_key st [] = st"
| "srt_loop api api_key st (line # lines) = srt_loop api api_key (srt_step api api_key st line) lines"

text \<open>The \<^verbatim>\<open>if text_buffer:\<close> after the loop, and the loop followed by it.\<close>

definition srt_finish :: "translation_api \<Rightarrow> string \<Rightarrow> srt_state \<Rightarrow> srt_state" where
  "srt_finish api api_key st = (if text_buffer st \<noteq> [] then translate_buffer api api_key st else st)"

definition translate_lines :: "translation_api \<Rightarrow> string \<Rightarrow> string list \<Rightarrow> srt_state" where
  "translate_lines api api_key lines = srt_finish api api_key (srt_loop api api_key srt_init lines)"

text \<open>
  The function with its two files. \<open>input\<close> is what opening and reading
  \<^verbatim>\<open>input_srt\<close> does: an exception, or the list \<^verbatim>\<open>f.readlines()\<close> returns (each line
  with its newline, but possibly the last). \<open>output_error\<close> is the exception that
  opening or writing \<^verbatim>\<open>output_srt\<close> raises, if any. The result is the exception that
  leaves the function, if any, with the messages emitted and, when the file was
  written, its lines.
\<close>

record srt_result =
  srt_raised :: "exn option"
  srt_emitted :: "string list"
  srt_requests :: "string list"
  srt_written :: "string list option"

definition translate_srt_file ::
  "exn + string list \<Rightarrow> exn option \<Rightarrow> string \<Rightarrow> translation_api \<Rightarrow> srt_result" where
  "translate_srt_file input output_error api_key api =
     (case input of
        Inl e \<Rightarrow> \<lparr>srt_raised = Some e, srt_emitted = [], srt_requests = [], srt_written = None\<rparr>
      | Inr lines \<Rightarrow>
          (let st = translate_lines api api_key lines
           in case output_error of
                Some e \<Rightarrow> \<lparr>srt_raised = Some e, srt_emitted = srt_log st,
                            srt_requests = api_calls st, srt_written = None\<rparr>
              | None \<Rightarrow> \<lparr>srt_raised = None, srt_emitted = srt_log st,
                          srt_requests = api_calls st, srt_written = Some (translated_lines st)\<rparr>))"

subsection \<open>Caption files as lists of blocks\<close>

text \<open>
  The data model of the specification: a caption block is an index line, a timing line
  and one or more text lines. The lines are lines of the file, as \<^verbatim>\<open>readlines\<close> yields
  them. A line is a text line when the loop above takes it for one: it is no index
  line, no timing line and not blank.
\<close>

record caption_block =
  cb_index :: string
  cb_timing :: string
  cb_text :: "string list"

definition is_text_line :: "string \<Rightarrow> bool" where
  "is_text_line line \<longleftrightarrow> \<not> is_index_line line \<and> \<not> is_timing_line line \<and> py_strip line \<noteq> []"

definition wf_block :: "caption_block \<Rightarrow> bool" where
  "wf_block b \<longleftrightarrow>
     is_index_line (cb_index b) \<and> is_timing_line (cb_timing b)
     \<and> cb_text b \<noteq> [] \<and> list_all is_text_line (cb_text b)"

text \<open>
  The file of a list of blocks: each block is followed by the blank line
  \<^verbatim>\<open>'\n'\<close>; after the last block the blank line is there when \<open>fin\<close> holds.
\<close>

fun caption_file :: "bool \<Rightarrow> caption_block list \<Rightarrow> string list" where
  "caption_file fin [] = []"
| "caption_file fin [b] = cb_index b # cb_timing b # cb_text b @ (if fin then [[NL]] else [])"
| "caption_file fin (b # b' # bs) =
     cb_index b # cb_timing b # cb_text b @ [NL] # caption_file fin (b' # bs)"

text \<open>
  What the translator makes of one block: the text sent to the service is the lines,
  stripped and joined by one space; the block's new text is the translation as one
  line, or, when the service raised, the stripped lines, each with a newline.
\<close>

definition block_text :: "caption_block \<Rightarrow> string" where
  "block_text b = py_strip (py_join '' '' (map py_strip (cb_text b)))"

definition translate_block :: "translation_api \<Rightarrow> string \<Rightarrow> caption_block \<Rightarrow> caption_block" where
  "translate_block api api_key b =
     b\<lparr>cb_text :=
         (case translate_text_deepseek api (block_text b) api_key of
            Inr translated_text \<Rightarrow> [translated_text @ [NL]]
          | Inl e \<Rightarrow> map (\<lambda>l. py_strip l @ [NL]) (cb_text b))\<rparr>"

text \<open>
  The same as the specification words it: on an error the block keeps its input lines
  as they are.
\<close>

definition translate_block_verbatim ::
  "translation_api \<Rightarrow> string \<Rightarrow> caption_block \<Rightarrow> caption_block" where
  "translate_block_verbatim api api_key b =
     b\<lparr>cb_text :=
         (case translate_text_deepseek api (block_text b) api_key of
            Inr translated_text \<Rightarrow> [translated_text @ [NL]]
          | Inl e \<Rightarrow> cb_text b)\<rparr>"

subsection \<open>The loop on a file of blocks\<close>

lemma srt_loop_append:
  "srt_loop api k st (xs @ ys) = srt_loop api k (srt_loop api k st xs) ys"
  by (induction xs arbitrary: st) simp_all

lemma srt_step_text:
  "is_text_line l \<Longrightarrow> srt_step api k st l = st\<lparr>text_buffer := text_buffer st @ [py_strip l]\<rparr>"
  by (simp add: srt_step_def is_text_line_def)

lemma srt_loop_text:
  "list_all is_text_line ts \<Longrightarrow>
     srt_loop api k st ts = st\<lparr>text_buffer := text_buffer st @ map py_strip ts\<rparr>"
  by (induction ts arbitrary: st) (simp_all add: srt_step_text)

lemma srt_step_passthrough:
  "is_index_line l \<or> is_timing_line l \<Longrightarrow>
     srt_step api k st l = st\<lparr>translated_lines := translated_lines st @ [l]\<rparr>"
  by (auto simp: srt_step_def)

lemma blank_NL: "\<not> is_index_line [NL]" "\<not> is_timing_line [NL]" "py_strip [NL] = []"
  by (simp_all add: is_index_line_def is_timing_line_def re_match_def index_pattern_def
      re_digit_def in_range_def NL_def py_strip_def py_lstrip_def py_rstrip_def py_isspace_def)

lemma translated_lines_translate_buffer:
  "translated_lines (translate_buffer api k st) =
     translated_lines st @
       (case translate_text_deepseek api (py_strip (py_join '' '' (text_buffer st))) k of
          Inr t \<Rightarrow> [t @ [NL]] | Inl e \<Rightarrow> map (\<lambda>l. l @ [NL]) (text_buffer st))"
  by (simp add: translate_buffer_def Let_def split: sum.splits)

lemma text_nonempty: "ts \<noteq> [] \<Longrightarrow> map f ts \<noteq> []" by simp

lemma block_head:
  assumes "wf_block b" "text_buffer st = []"
  shows "srt_loop api k st (cb_index b # cb_timing b # cb_text b @ rest) =
         srt_loop api k (st\<lparr>translated_lines := translated_lines st @ [cb_index b, cb_timing b],
                       text_buffer := map py_strip (cb_text b)\<rparr>) rest"
  using assms
  by (simp add: wf_block_def srt_step_passthrough srt_loop_append srt_loop_text)

lemma block_out:
  "cb_text (translate_block api k b) =
     (case translate_text_deepseek api (py_strip (py_join '' '' (map py_strip (cb_text b)))) k of
          Inr t \<Rightarrow> [t @ [NL]] | Inl e \<Rightarrow> map (\<lambda>l. l @ [NL]) (map py_strip (cb_text b)))"
  by (simp add: translate_block_def block_text_def split: sum.splits)

lemma translated_lines_block:
  "translated_lines (translate_buffer api k
      (st\<lparr>translated_lines := translated_lines st @ [cb_index b, cb_timing b],
           text_buffer := map py_strip (cb_text b)\<rparr>)) @ sfx =
   translated_lines st @ cb_index (translate_block api k b) # cb_timing (translate_block api k b)
     # cb_text (translate_block api k b) @ sfx"
  by (simp add: translated_lines_translate_buffer translate_block_def block_text_def split: sum.splits)

lemma blocks_loop:
  assumes "list_all wf_block bs" "text_buffer st = []"
  shows "translated_lines (srt_finish api k (srt_loop api k st (caption_file fin bs))) =
         translated_lines st @ caption_file fin (map (translate_block api k) bs)"
  using assms
proof (induction fin bs arbitrary: st rule: caption_file.induct)
  case (1 fin)
  then show ?case by (simp add: srt_finish_def)
next
  case (2 fin b)
  then have b: "wf_block b" by simp
  then have ne: "cb_text b \<noteq> []" by (simp add: wf_block_def)
  let ?st1 = "st\<lparr>translated_lines := translated_lines st @ [cb_index b, cb_timing b],
                       text_buffer := map py_strip (cb_text b)\<rparr>"
  let ?st2 = "(translate_buffer api k ?st1)\<lparr>text_buffer := []\<rparr>"
  let ?st3 = "?st2\<lparr>translated_lines := translated_lines ?st2 @ [[NL]]\<rparr>"
  show ?case
  proof (cases fin)
    case True
    have "srt_loop api k st (cb_index b # cb_timing b # cb_text b @ [[NL]]) =
          srt_loop api k ?st1 [[NL]]"
      using b 2(2) by (rule block_head)
    also have "\<dots> = ?st3"
      using ne by (simp add: srt_step_def blank_NL Let_def)
    finally have "srt_loop api k st (caption_file fin [b]) = ?st3"
      using True by simp
    then show ?thesis
      unfolding \<open>srt_loop api k st (caption_file fin [b]) = ?st3\<close>
      using True translated_lines_block [where sfx="[[NL]]" and st=st and b=b and api=api and k=k]
      by (simp add: srt_finish_def)
  next
    case False
    have "srt_loop api k st (cb_index b # cb_timing b # cb_text b @ []) =
          srt_loop api k ?st1 []"
      using b 2(2) by (rule block_head)
    then have "srt_loop api k st (caption_file fin [b]) = ?st1"
      using False by simp
    then show ?thesis
      unfolding \<open>srt_loop api k st (caption_file fin [b]) = ?st1\<close>
      using False ne translated_lines_block [where sfx="[]" and st=st and b=b and api=api and k=k]
      by (simp add: srt_finish_def)
  qed
next
  case (3 fin b b' bs)
  then have b: "wf_block b" and rest: "list_all wf_block (b' # bs)" by simp_all
  then have ne: "cb_text b \<noteq> []" by (simp add: wf_block_def)
  let ?st1 = "st\<lparr>translated_lines := translated_lines st @ [cb_index b, cb_timing b],
                       text_buffer := map py_strip (cb_text b)\<rparr>"
  let ?st2 = "(translate_buffer api k ?st1)\<lparr>text_buffer := []\<rparr>"
  let ?st3 = "?st2\<lparr>translated_lines := translated_lines ?st2 @ [[NL]]\<rparr>"
  have "srt_loop api k st (cb_index b # cb_timing b # cb_text b @ [NL] # caption_file fin (b' # bs)) =
          srt_loop api k ?st1 ([NL] # caption_file fin (b' # bs))"
    using b 3(3) by (rule block_head)
  also have "\<dots> = srt_loop api k ?st3 (caption_file fin (b' # bs))"
    using ne by (simp add: srt_step_def blank_NL Let_def)
  finally have 1: "srt_loop api k st (caption_file fin (b # b' # bs)) =
      srt_loop api k ?st3 (caption_file fin (b' # bs))"
    by simp
  have 3: "text_buffer ?st3 = []" by simp
  have "translated_lines (srt_finish api k (srt_loop api k ?st3 (caption_file fin (b' # bs)))) =
        translated_lines ?st3 @ caption_file fin (map (translate_block api k) (b' # bs))"
    using rest 3 by (rule "3.IH")
  then show ?case
    unfolding 1 using translated_lines_block [where sfx="[NL] # caption_file fin (map (translate_block api k) (b' # bs))" and st=st and b=b and api=api and k=k]
    by simp
qed


lemma nth_translate_block_text:
  "cb_text (translate_block api k b) =
     (case translate_text_deepseek api (block_text b) k of
        Inr t \<Rightarrow> [t @ [NL]] | Inl e \<Rightarrow> map (\<lambda>l. py_strip l @ [NL]) (cb_text b))"
  by (simp add: translate_block_def)

text \<open>
  Claim C2, as the code has it. For a file of \<open>N\<close> well-formed blocks that can be read,
  and an output file that can be written, \<open>translate_srt_file\<close> raises nothing,
  whatever the service does, and writes the file of \<open>N\<close> blocks in the same order,
  each with its index line and its timing line unchanged. The text of block \<open>k\<close> is the
  translation as one line; when the service raised on block \<open>k\<close>, it is the block's
  input text lines with the white space around each line stripped and a newline
  appended.
\<close>

theorem translate_srt_file_blocks:
  assumes "list_all wf_block bs"
  shows "srt_raised (translate_srt_file (Inr (caption_file fin bs)) None api_key api) = None
    \<and> srt_written (translate_srt_file (Inr (caption_file fin bs)) None api_key api)
        = Some (caption_file fin (map (translate_block api api_key) bs))
    \<and> length (map (translate_block api api_key) bs) = length bs
    \<and> (\<forall>k < length bs.
          cb_index (map (translate_block api api_key) bs ! k) = cb_index (bs ! k)
        \<and> cb_timing (map (translate_block api api_key) bs ! k) = cb_timing (bs ! k)
        \<and> cb_text (map (translate_block api api_key) bs ! k) =
            (case translate_text_deepseek api (block_text (bs ! k)) api_key of
               Inr translated_text \<Rightarrow> [translated_text @ [NL]]
             | Inl e \<Rightarrow> map (\<lambda>l. py_strip l @ [NL]) (cb_text (bs ! k))))"
proof -
  have "translated_lines (translate_lines api api_key (caption_file fin bs)) =
        translated_lines srt_init @ caption_file fin (map (translate_block api api_key) bs)"
    unfolding translate_lines_def
    using assms by (rule blocks_loop) (simp add: srt_init_def)
  then have "srt_written (translate_srt_file (Inr (caption_file fin bs)) None api_key api)
        = Some (caption_file fin (map (translate_block api api_key) bs))"
    by (simp add: translate_srt_file_def Let_def srt_init_def)
  moreover have "srt_raised (translate_srt_file (Inr (caption_file fin bs)) None api_key api) = None"
    by (simp add: translate_srt_file_def Let_def)
  moreover have "cb_index (translate_block api api_key b) = cb_index b
     \<and> cb_timing (translate_block api api_key b) = cb_timing b" for b
    by (simp add: translate_block_def)
  ultimately show ?thesis
    by (simp add: nth_translate_block_text)
qed



text \<open>Evaluating the translator on concrete files.\<close>

lemmas srt_eval = is_index_line_def is_timing_line_def re_match_def index_pattern_def
      re_digit_def in_range_def NL_def py_strip_def py_lstrip_def py_rstrip_def py_isspace_def
      is_text_line_def wf_block_def translate_srt_file_def translate_lines_def srt_finish_def
      srt_init_def srt_step_def translate_buffer_def translate_text_deepseek_def Let_def
      translate_block_def translate_block_verbatim_def block_text_def

theorem translate_srt_file_blocks_witness:
  "list_all wf_block
     [\<lparr>cb_index = ''1\<newline>'', cb_timing = ''00:00:01,000 --> 00:00:02,000\<newline>'',
       cb_text = [''Hello\<newline>'', ''world\<newline>'']\<rparr>,
      \<lparr>cb_index = ''2\<newline>'', cb_timing = ''00:00:02,000 --> 00:00:03,000\<newline>'',
       cb_text = [''Bye\<newline>'']\<rparr>]
   \<and> srt_written (translate_srt_file
        (Inr [''1\<newline>'', ''00:00:01,000 --> 00:00:02,000\<newline>'', ''Hello\<newline>'', ''world\<newline>'', ''\<newline>'',
              ''2\<newline>'', ''00:00:02,000 --> 00:00:03,000\<newline>'', ''Bye\<newline>''])
        None ''sk''
        (\<lambda>key text. if text = ''Bye'' then Inl (Other ''Timeout'' ''timed out'') else Inr (''<'' @ text @ ''> '')))
     = Some [''1\<newline>'', ''00:00:01,000 --> 00:00:02,000\<newline>'', ''<Hello world>\<newline>'', ''\<newline>'',
             ''2\<newline>'', ''00:00:02,000 --> 00:00:03,000\<newline>'', ''Bye\<newline>'']"
proof -
  let ?bs = "[\<lparr>cb_index = ''1\<newline>'', cb_timing = ''00:00:01,000 --> 00:00:02,000\<newline>'',
       cb_text = [''Hello\<newline>'', ''world\<newline>'']\<rparr>,
      \<lparr>cb_index = ''2\<newline>'', cb_timing = ''00:00:02,000 --> 00:00:03,000\<newline>'',
       cb_text = [''Bye\<newline>'']\<rparr>]"
  let ?api = "\<lambda>key text. if text = ''Bye'' then Inl (Other ''Timeout'' ''timed out'') else Inr (''<'' @ text @ ''> '')"
  have wf: "list_all wf_block ?bs"
    by (simp add: srt_eval)
  from translate_srt_file_blocks [OF wf, of False "''sk''" ?api]
  have "srt_written (translate_srt_file (Inr (caption_file False ?bs)) None ''sk'' ?api)
        = Some (caption_file False (map (translate_block ?api ''sk'') ?bs))"
    by blast
  then show ?thesis using wf
    by (simp add: translate_block_def block_text_def translate_text_deepseek_def
        py_strip_def py_lstrip_def py_rstrip_def py_isspace_def in_range_def NL_def)
qed

text \<open>
  Claim C2 as stated fails: a text line with leading white space is not kept verbatim
  when the service raises. The input block has the text line \<^verbatim>\<open>'  Hello\n'\<close>; the file
  written has \<^verbatim>\<open>'Hello\n'\<close>, where the claim expects the input line.
\<close>

theorem translate_srt_file_verbatim_counterexample:
  "wf_block \<lparr>cb_index = ''1\<newline>'', cb_timing = ''00:00:01,000 --> 00:00:02,000\<newline>'',
           cb_text = [''  Hello\<newline>'']\<rparr>
   \<and> srt_written (translate_srt_file
         (Inr [''1\<newline>'', ''00:00:01,000 --> 00:00:02,000\<newline>'', ''  Hello\<newline>'', ''\<newline>''])
         None ''sk'' (\<lambda>key text. Inl (Other ''ConnectionError'' ''unreachable'')))
      = Some [''1\<newline>'', ''00:00:01,000 --> 00:00:02,000\<newline>'', ''Hello\<newline>'', ''\<newline>'']
   \<and> caption_file True
        [translate_block_verbatim (\<lambda>key text. Inl (Other ''ConnectionError'' ''unreachable'')) ''sk''
           \<lparr>cb_index = ''1\<newline>'', cb_timing = ''00:00:01,000 --> 00:00:02,000\<newline>'',
             cb_text = [''  Hello\<newline>'']\<rparr>]
      = [''1\<newline>'', ''00:00:01,000 --> 00:00:02,000\<newline>'', ''  Hello\<newline>'', ''\<newline>'']"
  by (simp add: srt_eval)

subsection \<open>What is sent to the service, and where the other lines go\<close>

definition from_text_lines :: "string list \<Rightarrow> string \<Rightarrow> bool" where
  "from_text_lines lines a \<longleftrightarrow>
     (\<exists>ts. ts \<noteq> [] \<and> set ts \<subseteq> set (filter is_text_line lines)
        \<and> a = py_strip (py_join '' '' (map py_strip ts)))"

definition srt_inv :: "string list \<Rightarrow> srt_state \<Rightarrow> bool" where
  "srt_inv lines st \<longleftrightarrow>
     (\<exists>ts. set ts \<subseteq> set (filter is_text_line lines) \<and> text_buffer st = map py_strip ts)
     \<and> list_all (from_text_lines lines) (api_calls st)"

lemma inv_translate_buffer:
  assumes "srt_inv lines st" "text_buffer st \<noteq> []"
  shows "list_all (from_text_lines lines) (api_calls (translate_buffer api k st))"
    and "text_buffer (translate_buffer api k st) = text_buffer st"
proof -
  from assms(1) obtain ts where ts: "set ts \<subseteq> set (filter is_text_line lines)"
      "text_buffer st = map py_strip ts"
    unfolding srt_inv_def by blast
  from ts(2) assms(2) have "ts \<noteq> []" by auto
  with ts have "from_text_lines lines (py_strip (py_join '' '' (text_buffer st)))"
    unfolding from_text_lines_def by (intro exI [of _ ts]) simp
  with assms(1) show "list_all (from_text_lines lines) (api_calls (translate_buffer api k st))"
    by (simp add: translate_buffer_def Let_def srt_inv_def split: sum.splits)
  show "text_buffer (translate_buffer api k st) = text_buffer st"
    by (simp add: translate_buffer_def Let_def split: sum.splits)
qed

lemma inv_step:
  assumes "srt_inv lines st" "l \<in> set lines"
  shows "srt_inv lines (srt_step api k st l)"
proof -
  consider (pass) "is_index_line l \<or> is_timing_line l"
    | (blank) "\<not> is_index_line l" "\<not> is_timing_line l" "py_strip l = []"
    | (txt_line) "is_text_line l"
    unfolding is_text_line_def by blast
  then show ?thesis
  proof cases
    case pass
    then show ?thesis using assms(1) by (auto simp: srt_step_def srt_inv_def)
  next
    case blank
    show ?thesis
    proof (cases "text_buffer st = []")
      case True
      then show ?thesis using blank assms(1) by (simp add: srt_step_def srt_inv_def)
    next
      case False
      from inv_translate_buffer [OF assms(1) False, of api k]
      show ?thesis using blank False
        by (simp add: srt_step_def srt_inv_def Let_def)
    qed
  next
    case txt_line
    from assms(1) obtain ts where ts: "set ts \<subseteq> set (filter is_text_line lines)"
      "text_buffer st = map py_strip ts"
      unfolding srt_inv_def by blast
    have "set (ts @ [l]) \<subseteq> set (filter is_text_line lines)"
      using ts(1) txt_line assms(2) by simp
    moreover have "text_buffer st @ [py_strip l] = map py_strip (ts @ [l])"
      using ts(2) by simp
    ultimately have "\<exists>ts'. set ts' \<subseteq> set (filter is_text_line lines)
        \<and> text_buffer st @ [py_strip l] = map py_strip ts'"
      by (intro exI [of _ "ts @ [l]"] conjI)
    then show ?thesis using txt_line assms(1)
      by (simp add: srt_step_def srt_inv_def is_text_line_def)
  qed
qed

lemma inv_loop:
  "srt_inv lines st \<Longrightarrow> set xs \<subseteq> set lines \<Longrightarrow> srt_inv lines (srt_loop api k st xs)"
  by (induction xs arbitrary: st) (simp_all add: inv_step)

lemma inv_init: "srt_inv lines srt_init"
  by (simp add: srt_inv_def srt_init_def)

lemma requests_from_text_lines:
  "list_all (from_text_lines lines) (api_calls (translate_lines api k lines))"
proof -
  have i: "srt_inv lines (srt_loop api k srt_init lines)"
    by (rule inv_loop [OF inv_init]) simp
  show ?thesis
  proof (cases "text_buffer (srt_loop api k srt_init lines) = []")
    case True
    with i show ?thesis by (simp add: translate_lines_def srt_finish_def srt_inv_def)
  next
    case False
    from inv_translate_buffer(1) [OF i False, of api k] False
    show ?thesis by (simp add: translate_lines_def srt_finish_def)
  qed
qed

text \<open>The output only grows.\<close>

lemma prefix_translate_buffer: "prefix (translated_lines st) (translated_lines (translate_buffer api k st))"
  by (simp add: translate_buffer_def Let_def split: sum.splits)

lemma prefix_step: "prefix (translated_lines st) (translated_lines (srt_step api k st l))"
  using prefix_translate_buffer [of st api k]
  by (auto simp: srt_step_def Let_def intro: prefix_order.trans)

lemma prefix_loop: "prefix (translated_lines st) (translated_lines (srt_loop api k st xs))"
proof (induction xs arbitrary: st)
  case Nil
  show ?case by simp
next
  case (Cons x xs)
  have "prefix (translated_lines st) (translated_lines (srt_step api k st x))"
    by (rule prefix_step)
  also have "prefix \<dots> (translated_lines (srt_loop api k (srt_step api k st x) xs))"
    by (rule Cons.IH)
  finally show ?case by simp
qed

lemma prefix_srt_finish: "prefix (translated_lines st) (translated_lines (srt_finish api k st))"
  by (simp add: srt_finish_def prefix_translate_buffer)

lemma passthrough_position:
  assumes "is_index_line l \<or> is_timing_line l"
  shows "prefix (translated_lines (srt_loop api k srt_init pre) @ [l])
           (translated_lines (translate_lines api k (pre @ l # post)))"
proof -
  let ?s = "srt_loop api k srt_init pre"
  have "srt_step api k ?s l = ?s\<lparr>translated_lines := translated_lines ?s @ [l]\<rparr>"
    using assms by (auto simp: srt_step_def)
  then have "translated_lines (srt_step api k ?s l) = translated_lines ?s @ [l]" by simp
  moreover have "prefix (translated_lines (srt_step api k ?s l))
      (translated_lines (srt_loop api k (srt_step api k ?s l) post))"
    by (rule prefix_loop)
  moreover have "prefix (translated_lines (srt_loop api k (srt_step api k ?s l) post))
     (translated_lines (srt_finish api k (srt_loop api k (srt_step api k ?s l) post)))"
    by (rule prefix_srt_finish)
  ultimately show ?thesis
    unfolding translate_lines_def srt_loop_append srt_loop.simps
    by (metis prefix_order.trans)
qed


lemma match_lit_prefix: "(\<exists>t. match_lit p s = Some t) \<longleftrightarrow> prefix p s"
  by (simp add: match_lit_iff prefix_def)

lemma py_contains_sublist: "py_contains sub s \<longleftrightarrow> sublist sub s"
  by (induction s) (simp_all add: match_lit_prefix sublist_Cons_right)

lemma sublist_py_strip: "sublist (py_strip s) s"
proof -
  let ?u = "dropWhile py_isspace s"
  have "rev ?u = takeWhile py_isspace (rev ?u) @ dropWhile py_isspace (rev ?u)" by simp
  then have "?u = rev (dropWhile py_isspace (rev ?u)) @ rev (takeWhile py_isspace (rev ?u))"
    by (metis rev_append rev_rev_ident)
  then have "prefix (py_strip s) ?u"
    unfolding py_strip_def py_rstrip_def py_lstrip_def by (metis prefixI)
  then have "sublist (py_strip s) ?u" by (rule prefix_imp_sublist)
  moreover have "sublist ?u s" by (rule suffix_imp_sublist) (rule suffix_dropWhile)
  ultimately show ?thesis by (rule sublist_order.order.trans)
qed

lemma arrow_in_join:
  "sublist ''-->'' (py_join '' '' xs) \<Longrightarrow> \<exists>x\<in>set xs. sublist ''-->'' x"
proof (induction "'' ''" xs rule: py_join.induct)
  case 1
  then show ?case by simp
next
  case (2 x)
  then show ?case by simp
next
  case (3 x y ys)
  from 3(2) have "sublist ''-->'' (x @ CHR '' '' # py_join '' '' (y # ys))" by simp
  then consider "sublist ''-->'' x" | "sublist ''-->'' (CHR '' '' # py_join '' '' (y # ys))"
    | xs1 xs2 where "''-->'' = xs1 @ xs2" "suffix xs1 x" "prefix xs2 (CHR '' '' # py_join '' '' (y # ys))"
    unfolding sublist_append by blast
  then show ?case
  proof cases
    case 1
    then show ?thesis by simp
  next
    case 2
    then have "sublist ''-->'' (py_join '' '' (y # ys))"
      by (simp add: sublist_Cons_right)
    with 3(1) show ?thesis by simp
  next
    case 3
    from 3(3) have "xs2 = [] \<or> hd xs2 = CHR '' ''" by (cases xs2) auto
    moreover from 3(1) have "xs2 = [] \<or> hd xs2 \<in> set ''-->''"
      by (metis Un_iff hd_in_set set_append)
    ultimately have "xs2 = []" by auto
    with 3(1,2) have "sublist ''-->'' x" by (simp add: suffix_imp_sublist)
    then show ?thesis by simp
  qed
qed

lemma request_no_arrow:
  assumes "from_text_lines lines a"
  shows "\<not> is_timing_line a"
proof
  assume "is_timing_line a"
  from assms obtain ts where ts: "set ts \<subseteq> set (filter is_text_line lines)"
     and a: "a = py_strip (py_join '' '' (map py_strip ts))"
    unfolding from_text_lines_def by blast
  from \<open>is_timing_line a\<close> have "sublist ''-->'' (py_strip (py_join '' '' (map py_strip ts)))"
    by (simp add: a is_timing_line_def py_contains_sublist)
  then have "sublist ''-->'' (py_join '' '' (map py_strip ts))"
    using sublist_py_strip sublist_order.order.trans by blast
  then obtain t where t: "t \<in> set ts" "sublist ''-->'' (py_strip t)"
    using arrow_in_join by fastforce
  then have "sublist ''-->'' t"
    using sublist_py_strip sublist_order.order.trans by blast
  moreover from t(1) ts have "is_text_line t" by auto
  ultimately show False
    by (simp add: is_text_line_def is_timing_line_def py_contains_sublist)
qed

text \<open>
  Claim C6. Every text sent to the translation service is the joined text of a block:
  lines that the loop took for text lines (no index line, no timing line), stripped
  and joined by one space; it contains no \<^verbatim>\<open>-->\<close>. Every index line and every timing
  line of the input is in the output as it is, and in its place: right after
  everything written for the lines before it.
\<close>

theorem translator_gets_only_block_text:
  "list_all (\<lambda>a. from_text_lines lines a \<and> \<not> is_timing_line a)
      (srt_requests (translate_srt_file (Inr lines) output_error api_key api))
   \<and> (\<forall>pre l post. lines = pre @ l # post \<and> (is_index_line l \<or> is_timing_line l) \<longrightarrow>
         (\<exists>sfx. srt_written (translate_srt_file (Inr lines) None api_key api)
                  = Some (translated_lines (srt_loop api api_key srt_init pre) @ l # sfx)))"
proof -
  have r: "srt_requests (translate_srt_file (Inr lines) output_error api_key api)
        = api_calls (translate_lines api api_key lines)"
    by (simp add: translate_srt_file_def Let_def split: option.splits)
  have "list_all (from_text_lines lines) (api_calls (translate_lines api api_key lines))"
    by (rule requests_from_text_lines)
  then have 1: "list_all (\<lambda>a. from_text_lines lines a \<and> \<not> is_timing_line a)
      (srt_requests (translate_srt_file (Inr lines) output_error api_key api))"
    unfolding r by (auto simp: list_all_iff dest: request_no_arrow)
  have 2: "\<exists>sfx. srt_written (translate_srt_file (Inr lines) None api_key api)
                  = Some (translated_lines (srt_loop api api_key srt_init pre) @ l # sfx)"
    if "lines = pre @ l # post" "is_index_line l \<or> is_timing_line l" for pre l post
  proof -
    from passthrough_position [OF that(2), of api api_key pre post]
    have "prefix (translated_lines (srt_loop api api_key srt_init pre) @ [l])
           (translated_lines (translate_lines api api_key lines))"
      by (simp only: that(1))
    then obtain sfx where "translated_lines (translate_lines api api_key lines)
       = (translated_lines (srt_loop api api_key srt_init pre) @ [l]) @ sfx"
      by (rule prefixE)
    then show ?thesis by (simp add: translate_srt_file_def Let_def)
  qed
  from 1 2 show ?thesis by blast
qed

theorem translator_gets_only_block_text_witness:
  "srt_requests (translate_srt_file
      (Inr [''1\<newline>'', ''00:00:01,000 --> 00:00:02,000\<newline>'', ''Hello\<newline>'', ''world\<newline>'', ''\<newline>''])
      None ''sk'' (\<lambda>key text. Inr (''<'' @ text @ ''>''))) = [''Hello world'']
   \<and> from_text_lines
        [''1\<newline>'', ''00:00:01,000 --> 00:00:02,000\<newline>'', ''Hello\<newline>'', ''world\<newline>'', ''\<newline>'']
        ''Hello world''
   \<and> is_timing_line ''00:00:01,000 --> 00:00:02,000\<newline>''
   \<and> (\<exists>sfx. srt_written (translate_srt_file
      (Inr [''1\<newline>'', ''00:00:01,000 --> 00:00:02,000\<newline>'', ''Hello\<newline>'', ''world\<newline>'', ''\<newline>''])
      None ''sk'' (\<lambda>key text. Inr (''<'' @ text @ ''>'')))
        = Some (''1\<newline>'' # ''00:00:01,000 --> 00:00:02,000\<newline>'' # sfx))"
proof -
  let ?lines = "[''1\<newline>'', ''00:00:01,000 --> 00:00:02,000\<newline>'', ''Hello\<newline>'', ''world\<newline>'', ''\<newline>'']"
  let ?api = "\<lambda>key text. Inr (''<'' @ text @ ''>'')"
  note t = translator_gets_only_block_text [of ?lines None "''sk''" ?api]
  have r: "srt_requests (translate_srt_file (Inr ?lines) None ''sk'' ?api) = [''Hello world'']"
    by (simp add: srt_eval)
  from t have "list_all (\<lambda>a. from_text_lines ?lines a \<and> \<not> is_timing_line a)
      (srt_requests (translate_srt_file (Inr ?lines) None ''sk'' ?api))" by (rule conjunct1)
  then have f: "from_text_lines ?lines ''Hello world''"
    unfolding r by simp
  have i: "is_timing_line ''00:00:01,000 --> 00:00:02,000\<newline>''"
    by (simp add: is_timing_line_def)
  have p: "translated_lines (srt_loop ?api ''sk'' srt_init [''1\<newline>'']) = [''1\<newline>'']"
    by (simp add: srt_eval)
  from t have "\<forall>pre l post. ?lines = pre @ l # post \<and> (is_index_line l \<or> is_timing_line l) \<longrightarrow>
         (\<exists>sfx. srt_written (translate_srt_file (Inr ?lines) None ''sk'' ?api)
                  = Some (translated_lines (srt_loop ?api ''sk'' srt_init pre) @ l # sfx))"
    by (rule conjunct2)
  then have "?lines = [''1\<newline>''] @ ''00:00:01,000 --> 00:00:02,000\<newline>'' # [''Hello\<newline>'', ''world\<newline>'', ''\<newline>'']
      \<and> (is_index_line ''00:00:01,000 --> 00:00:02,000\<newline>'' \<or> is_timing_line ''00:00:01,000 --> 00:00:02,000\<newline>'') \<longrightarrow>
         (\<exists>sfx. srt_written (translate_srt_file (Inr ?lines) None ''sk'' ?api)
                  = Some (translated_lines (srt_loop ?api ''sk'' srt_init [''1\<newline>'']) @ ''00:00:01,000 --> 00:00:02,000\<newline>'' # sfx))"
    by blast
  with i have "\<exists>sfx. srt_written (translate_srt_file (Inr ?lines) None ''sk'' ?api)
                  = Some (translated_lines (srt_loop ?api ''sk'' srt_init [''1\<newline>'']) @ ''00:00:01,000 --> 00:00:02,000\<newline>'' # sfx)"
    by simp
  then have "\<exists>sfx. srt_written (translate_srt_file (Inr ?lines) None ''sk'' ?api)
                  = Some (''1\<newline>'' # ''00:00:01,000 --> 00:00:02,000\<newline>'' # sfx)"
    unfolding p by simp
  with r f i show ?thesis by blast
qed

end
